theory Spec2Isabelle
  imports Main
begin

section \<open>The maze generator front end (mazegen.py)\<close>

text \<open>
  The module binds a configuration to a \<open>MazeGenerator\<close> object, drives the carving,
  braiding and solving routines of the package \<open>maze_files\<close>, and encodes a coordinate
  path as a string over N, E, S, W.  The routines of \<open>maze_files\<close> are imported, not
  defined, by this module; the model takes them as parameters (the record \<open>env\<close>), so
  every statement below holds for whatever those routines compute.
\<close>

subsection \<open>Values, exceptions and the object store\<close>

type_synonym coord = "int \<times> int"

text \<open>
  The exceptions of the module.  \<open>RuntimeError\<close> carries the message of the source,
  \<open>ValueError\<close> the two coordinates that its message prints, \<open>TypeError\<close> is what
  Python raises for \<open>len(None)\<close>, and \<open>OtherError\<close> stands for any other exception
  that an imported routine may raise.
\<close>

datatype error =
    RuntimeError string
  | ValueError coord coord
  | TypeError
  | OtherError string

definition MazeNotGenerated :: error where
  "MazeNotGenerated =
     RuntimeError ''Maze not generated yer. Please call generate() functionfirst.''"

definition PathNotSolved :: error where
  "PathNotSolved = RuntimeError ''Maze path is not solved yet.''"

definition MissingFeature :: error where
  "MissingFeature =
     RuntimeError (''Config Perfect=False but multiple_path_maze() was not '' @
                   ''found. Expected maze_files/multiple_path_maze.py to '' @
                   ''define multiple_path maze.'')"

text \<open>
  Python sets are mutable objects handled by reference.  The store maps the address of
  every set object to its present contents; \<open>next_ref\<close> is the first unused address.
\<close>

type_synonym ref = nat

record heap =
  objs :: "ref \<rightharpoonup> coord set"
  next_ref :: ref

definition empty_heap :: heap where
  "empty_heap = \<lparr>objs = Map.empty, next_ref = 0\<rparr>"

definition new_set :: "coord set \<Rightarrow> heap \<Rightarrow> ref \<times> heap" where
  \<comment> \<open>\<open>set(...)\<close>: a new object, at an address not in use.\<close>
  "new_set s h =
     (next_ref h, h\<lparr>objs := (objs h)(next_ref h \<mapsto> s), next_ref := Suc (next_ref h)\<rparr>)"

definition lookup :: "heap \<Rightarrow> ref \<Rightarrow> coord set" where
  \<comment> \<open>The contents of a set object (a reference held by a program is never dangling).\<close>
  "lookup h r = (case objs h r of None \<Rightarrow> {} | Some s \<Rightarrow> s)"

definition mutate_set :: "ref \<Rightarrow> (coord set \<Rightarrow> coord set) \<Rightarrow> heap \<Rightarrow> heap" where
  \<comment> \<open>An in-place update of the object at \<open>r\<close>: \<open>add\<close>, \<open>discard\<close>, \<open>clear\<close>, \<open>update\<close>, ...\<close>
  "mutate_set r f h =
     (case objs h r of None \<Rightarrow> h | Some s \<Rightarrow> h\<lparr>objs := (objs h)(r \<mapsto> f s)\<rparr>)"

subsection \<open>Configuration, generator object and imported routines\<close>

record ConfigGen =
  width :: int
  height :: int
  entry :: coord
  exit :: coord
  seed :: int
  perfect :: bool
  marking_42 :: bool

text \<open>
  The private attributes \<open>_maze\<close>, \<open>_path\<close> and \<open>_forbidden\<close> are the fields
  \<open>priv_maze\<close>, \<open>priv_path\<close> and \<open>priv_forbidden\<close>; \<open>None\<close> is Python's \<open>None\<close>, and
  \<open>priv_forbidden\<close> is the address of a set object.  The type \<open>'m\<close> is the class
  \<open>Maze\<close> of \<open>maze_files\<close>.
\<close>

record 'm MazeGenerator =
  cfg :: ConfigGen
  priv_maze :: "'m option"
  priv_path :: "coord list option"
  priv_forbidden :: ref

text \<open>
  The imported routines.  A routine that builds or reads returns its value or the
  exception it raised; a routine that works on the maze in place returns the maze as
  the call left it, with the exception if it raised.  The two optional imports are
  \<open>None\<close> when the import failed.
\<close>

record 'm env =
  Maze :: "int \<Rightarrow> int \<Rightarrow> coord \<Rightarrow> coord \<Rightarrow> error + 'm"
  dfs_maze_generator :: "'m \<Rightarrow> coord set \<Rightarrow> int \<Rightarrow> error option \<times> 'm"
  bfs_shortest_path_solver :: "'m \<Rightarrow> error + coord list"
  multiple_path_maze :: "('m \<Rightarrow> error option \<times> 'm) option"
  forty_two_marking :: "('m \<Rightarrow> error + coord list) option"

subsection \<open>The methods of MazeGenerator\<close>

definition init :: "ConfigGen \<Rightarrow> heap \<Rightarrow> 'm MazeGenerator \<times> heap" where
  "init c h =
     (let (r, h') = new_set {} h
      in (\<lparr>cfg = c, priv_maze = None, priv_path = None, priv_forbidden = r\<rparr>, h'))"

definition maze :: "'m MazeGenerator \<Rightarrow> error + 'm" where
  "maze self =
     (case priv_maze self of
        None \<Rightarrow> Inl MazeNotGenerated
      | Some m \<Rightarrow> Inr m)"

definition forbidden_cells :: "'m MazeGenerator \<Rightarrow> heap \<Rightarrow> (error + ref) \<times> heap" where
  \<comment> \<open>\<open>return set(self._forbidden)\<close>: no guard, no raise.\<close>
  "forbidden_cells self h =
     (let (r, h') = new_set (lookup h (priv_forbidden self)) h in (Inr r, h'))"

definition path :: "'m MazeGenerator \<Rightarrow> error + coord list option" where
  \<comment> \<open>The body ends after the guard: when \<open>_path\<close> is set the property returns \<open>None\<close>.\<close>
  "path self =
     (if priv_path self = None then Inl PathNotSolved
      else Inr None)"

definition run_marking :: "'m env \<Rightarrow> ConfigGen \<Rightarrow> 'm \<Rightarrow> error + coord list option" where
  \<comment> \<open>Lines 80-81: the cells to forbid, \<open>None\<close> when the branch is not taken.\<close>
  "run_marking e c m =
     (if marking_42 c then
        (case forty_two_marking e of
           None \<Rightarrow> Inr None
         | Some mark \<Rightarrow>
             (case mark m of
                Inl x \<Rightarrow> Inl x
              | Inr cells \<Rightarrow> Inr (Some cells)))
      else Inr None)"

text \<open>
  \<open>generate\<close> is declared as a property: the model is the body of its getter.  The result
  is the returned maze or the exception, with the generator and the store as the call
  left them.
\<close>

definition generate ::
  "'m env \<Rightarrow> 'm MazeGenerator \<Rightarrow> heap \<Rightarrow> (error + 'm) \<times> 'm MazeGenerator \<times> heap" where
  "generate e self h =
     (let c = cfg self in
      case Maze e (height c) (width c) (entry c) (exit c) of
        Inl x \<Rightarrow> (Inl x, self, h)
      | Inr m \<Rightarrow>
          let (r0, h0) = new_set {} h;
              self0 = self\<lparr>priv_maze := Some m, priv_path := None, priv_forbidden := r0\<rparr>
          in
          (case run_marking e c m of
             Inl x \<Rightarrow> (Inl x, self0, h0)
           | Inr marked \<Rightarrow>
               let (self1, h1) =
                     (case marked of
                        None \<Rightarrow> (self0, h0)
                      | Some cells \<Rightarrow>
                          let (r1, h') = new_set (set cells) h0
                          in (self0\<lparr>priv_forbidden := r1\<rparr>, h'));
                   (raised, m1) =
                     dfs_maze_generator e m (lookup h1 (priv_forbidden self1)) (seed c);
                   self2 = self1\<lparr>priv_maze := Some m1\<rparr>
               in
               (case raised of
                  Some x \<Rightarrow> (Inl x, self2, h1)
                | None \<Rightarrow>
                    if \<not> perfect c then
                      (case multiple_path_maze e of
                         None \<Rightarrow> (Inl MissingFeature, self2, h1)
                       | Some braid \<Rightarrow>
                           let (raised2, m2) = braid m1;
                               self3 = self2\<lparr>priv_maze := Some m2\<rparr>
                           in (case raised2 of
                                 Some x \<Rightarrow> (Inl x, self3, h1)
                               | None \<Rightarrow> (Inr m2, self3, h1)))
                    else (Inr m1, self2, h1))))"

definition solve_maze_path ::
  "'m env \<Rightarrow> 'm MazeGenerator \<Rightarrow> (error + coord list) \<times> 'm MazeGenerator" where
  "solve_maze_path e self =
     (case maze self of
        Inl x \<Rightarrow> (Inl x, self)
      | Inr m \<Rightarrow>
          (case bfs_shortest_path_solver e m of
             Inl x \<Rightarrow> (Inl x, self)
           | Inr p \<Rightarrow> (Inr p, self\<lparr>priv_path := Some p\<rparr>)))"

text \<open>The loop of \<open>coords_to_directions\<close> over the zipped pairs, \<open>out\<close> its accumulator.\<close>

fun encode_pairs :: "(coord \<times> coord) list \<Rightarrow> string list \<Rightarrow> error + string list" where
  "encode_pairs [] out = Inr out"
| "encode_pairs (((x1, y1), (x2, y2)) # ps) out =
     (let dx = x2 - x1; dy = y2 - y1 in
      if dx = 0 \<and> dy = - 1 then encode_pairs ps (out @ [''N''])
      else if dx = 1 \<and> dy = 0 then encode_pairs ps (out @ [''E''])
      else if dx = 0 \<and> dy = 1 then encode_pairs ps (out @ [''S''])
      else if dx = - 1 \<and> dy = 0 then encode_pairs ps (out @ [''W''])
      else Inl (ValueError (x1, y1) (x2, y2)))"

definition coords_to_directions ::
  "'m MazeGenerator \<Rightarrow> coord list option \<Rightarrow> error + string" where
  "coords_to_directions self coords =
     (case (case coords of None \<Rightarrow> path self | Some cs \<Rightarrow> Inr (Some cs)) of
        Inl x \<Rightarrow> Inl x
      | Inr None \<Rightarrow> Inl TypeError
      | Inr (Some coords_list) \<Rightarrow>
          if length coords_list < 2 then Inr ''''
          else (case encode_pairs (zip coords_list (drop 1 coords_list)) [] of
                  Inl x \<Rightarrow> Inl x
                | Inr out \<Rightarrow> Inr (concat out)))"

subsection \<open>Vocabulary of the statements\<close>

text \<open>
  A unit step, in the words of the specification: north is \<open>y - 1\<close>, east is \<open>x + 1\<close>,
  south is \<open>y + 1\<close>, west is \<open>x - 1\<close>.  \<open>adjacent_path\<close> says that every consecutive pair
  of a sequence is a unit step; \<open>replay\<close> applies a direction string letter by letter as
  unit moves and collects the cells visited (\<open>None\<close> on a letter that is no direction).
\<close>

definition unit_step :: "coord \<Rightarrow> coord \<Rightarrow> bool" where
  "unit_step a b =
     (b = (fst a, snd a - 1) \<or> b = (fst a + 1, snd a) \<or>
      b = (fst a, snd a + 1) \<or> b = (fst a - 1, snd a))"

fun adjacent_path :: "coord list \<Rightarrow> bool" where
  "adjacent_path (a # b # rest) = (unit_step a b \<and> adjacent_path (b # rest))"
| "adjacent_path _ = True"

definition move :: "char \<Rightarrow> coord \<Rightarrow> coord option" where
  "move d p =
     (if d = CHR ''N'' then Some (fst p, snd p - 1)
      else if d = CHR ''E'' then Some (fst p + 1, snd p)
      else if d = CHR ''S'' then Some (fst p, snd p + 1)
      else if d = CHR ''W'' then Some (fst p - 1, snd p)
      else None)"

fun replay :: "coord \<Rightarrow> string \<Rightarrow> coord list option" where
  "replay p [] = Some [p]"
| "replay p (d # ds) =
     (case move d p of
        None \<Rightarrow> None
      | Some q \<Rightarrow> map_option ((#) p) (replay q ds))"

subsection \<open>Sequences of calls on a generator\<close>

text \<open>
  What a client can do with a generator: call \<open>generate\<close> and \<open>solve_maze_path\<close>, read
  the three accessors, call \<open>coords_to_directions\<close>, and update in place a set that
  \<open>forbidden_cells\<close> returned to it.  A session is the generator, the store and the sets
  returned so far; \<open>perform\<close> is the effect of one call on it (results and exceptions are
  dropped, as by a client that catches them), \<open>run\<close> the effect of a sequence of calls,
  and \<open>new_session\<close> the session right after the constructor.
\<close>

datatype call =
    Generate
  | Solve_maze_path
  | Read_maze
  | Read_path
  | Read_forbidden_cells
  | Coords_to_directions "coord list option"
  | Update_returned nat "coord set \<Rightarrow> coord set"

type_synonym 'm session = "'m MazeGenerator \<times> heap \<times> ref list"

definition new_session :: "ConfigGen \<Rightarrow> heap \<Rightarrow> 'm session" where
  "new_session c h = (case init c h of (g, h') \<Rightarrow> (g, h', []))"

fun perform :: "'m env \<Rightarrow> call \<Rightarrow> 'm session \<Rightarrow> 'm session" where
  "perform e Generate (g, h, rs) = (case generate e g h of (res, g', h') \<Rightarrow> (g', h', rs))"
| "perform e Solve_maze_path (g, h, rs) = (snd (solve_maze_path e g), h, rs)"
| "perform e Read_forbidden_cells (g, h, rs) =
     (case forbidden_cells g h of
        (Inr r, h') \<Rightarrow> (g, h', rs @ [r])
      | (Inl x, h') \<Rightarrow> (g, h', rs))"
| "perform e (Update_returned k f) (g, h, rs) =
     (if k < length rs then (g, mutate_set (rs ! k) f h, rs) else (g, h, rs))"
| "perform e Read_maze s = s"
| "perform e Read_path s = s"
| "perform e (Coords_to_directions coords) s = s"

fun run :: "'m env \<Rightarrow> call list \<Rightarrow> 'm session \<Rightarrow> 'm session" where
  "run e [] s = s"
| "run e (c # cs) s = run e cs (perform e c s)"

text \<open>
  The two facts that calls preserve: \<open>not_generated\<close> as long as \<open>generate\<close> is not
  called, \<open>no_path\<close> as long as \<open>solve_maze_path\<close> is not called.
\<close>

definition not_generated :: "'m session \<Rightarrow> bool" where
  "not_generated s =
     (case s of (g, h, rs) \<Rightarrow>
        priv_maze g = None \<and> priv_path g = None \<and> lookup h (priv_forbidden g) = {} \<and>
        priv_forbidden g \<notin> set rs \<and> priv_forbidden g < next_ref h)"

definition no_path :: "'m session \<Rightarrow> bool" where
  "no_path s = (priv_path (fst s) = None)"

subsection \<open>A sample build\<close>

text \<open>
  Concrete values for instantiating the statements: the maze of one row and two columns
  with entry \<open>(0, 0)\<close> and exit \<open>(1, 0)\<close>, in a build where both optional modules are
  absent.  The maze is its grid of masks, every cell created with mask 15; the sample
  carver opens the one wall between the two cells (masks 13 and 7, taking north, east,
  south, west as bits 0 to 3) and the sample solver returns the two-cell path.  The
  statements themselves hold for every \<open>env\<close>.
\<close>

type_synonym grid = "nat list list"

definition demo_cfg :: ConfigGen where
  "demo_cfg = \<lparr>width = 2, height = 1, entry = (0, 0), exit = (1, 0), seed = 0,
                perfect = True, marking_42 = True\<rparr>"

definition demo_env :: "grid env" where
  "demo_env =
     \<lparr>Maze = (\<lambda>h w en ex. Inr (replicate (nat h) (replicate (nat w) 15))),
      dfs_maze_generator = (\<lambda>m forbidden sd. (None, [[13, 7]])),
      bfs_shortest_path_solver = (\<lambda>m. Inr [(0, 0), (1, 0)]),
      multiple_path_maze = None,
      forty_two_marking = None\<rparr>"

definition demo_gen :: "grid MazeGenerator" where
  "demo_gen = fst (init demo_cfg empty_heap)"

definition demo_heap :: heap where
  "demo_heap = snd (init demo_cfg empty_heap :: grid MazeGenerator \<times> heap)"

definition demo_generated :: "grid MazeGenerator" where
  "demo_generated = fst (snd (generate demo_env demo_gen demo_heap))"

definition demo_solved :: "grid MazeGenerator" where
  "demo_solved = snd (solve_maze_path demo_env demo_generated)"

section \<open>Properties\<close>

subsection \<open>The direction encoder\<close>

lemma adjacent_path_nth:
  "adjacent_path cs = (\<forall>i. Suc i < length cs \<longrightarrow> unit_step (cs ! i) (cs ! Suc i))"
proof (induction cs rule: adjacent_path.induct)
  case (1 a b rest)
  show ?case
  proof
    assume h: "adjacent_path (a # b # rest)"
    show "\<forall>i. Suc i < length (a # b # rest) \<longrightarrow>
              unit_step ((a # b # rest) ! i) ((a # b # rest) ! Suc i)"
    proof (intro allI impI)
      fix i assume "Suc i < length (a # b # rest)"
      then show "unit_step ((a # b # rest) ! i) ((a # b # rest) ! Suc i)"
        using h 1 by (cases i) auto
    qed
  next
    assume h: "\<forall>i. Suc i < length (a # b # rest) \<longrightarrow>
              unit_step ((a # b # rest) ! i) ((a # b # rest) ! Suc i)"
    have "unit_step a b" using h [rule_format, of 0] by simp
    moreover have "\<forall>i. Suc i < length (b # rest) \<longrightarrow>
              unit_step ((b # rest) ! i) ((b # rest) ! Suc i)"
    proof (intro allI impI)
      fix i assume "Suc i < length (b # rest)"
      then have "Suc (Suc i) < length (a # b # rest)" by simp
      from h [rule_format, OF this] show "unit_step ((b # rest) ! i) ((b # rest) ! Suc i)"
        by simp
    qed
    ultimately show "adjacent_path (a # b # rest)" using 1 by simp
  qed
qed simp_all

lemma encode_step:
  assumes "unit_step a b"
  shows "\<exists>d. encode_pairs ((a, b) # ps) out = encode_pairs ps (out @ [[d]]) \<and> move d a = Some b"
proof -
  obtain x1 y1 x2 y2 where ab: "a = (x1, y1)" "b = (x2, y2)"
    by (cases a, cases b) blast
  from assms ab consider
      (N) "x2 = x1" "y2 = y1 - 1" | (E) "x2 = x1 + 1" "y2 = y1"
    | (S) "x2 = x1" "y2 = y1 + 1" | (W) "x2 = x1 - 1" "y2 = y1"
    unfolding unit_step_def by auto
  then show ?thesis
  proof cases
    case N
    then have "encode_pairs ((a, b) # ps) out = encode_pairs ps (out @ [[CHR ''N'']]) \<and>
               move (CHR ''N'') a = Some b"
      using ab by (simp add: move_def)
    then show ?thesis ..
  next
    case E
    then have "encode_pairs ((a, b) # ps) out = encode_pairs ps (out @ [[CHR ''E'']]) \<and>
               move (CHR ''E'') a = Some b"
      using ab by (simp add: move_def)
    then show ?thesis ..
  next
    case S
    then have "encode_pairs ((a, b) # ps) out = encode_pairs ps (out @ [[CHR ''S'']]) \<and>
               move (CHR ''S'') a = Some b"
      using ab by (simp add: move_def)
    then show ?thesis ..
  next
    case W
    then have "encode_pairs ((a, b) # ps) out = encode_pairs ps (out @ [[CHR ''W'']]) \<and>
               move (CHR ''W'') a = Some b"
      using ab by (simp add: move_def)
    then show ?thesis ..
  qed
qed

lemma encode_bad_step:
  assumes "\<not> unit_step a b"
  shows "encode_pairs ((a, b) # ps) out = Inl (ValueError a b)"
proof -
  obtain x1 y1 x2 y2 where ab: "a = (x1, y1)" "b = (x2, y2)"
    by (cases a, cases b) blast
  from assms ab have
    "\<not> (x2 - x1 = 0 \<and> y2 - y1 = - 1)" "\<not> (x2 - x1 = 1 \<and> y2 - y1 = 0)"
    "\<not> (x2 - x1 = 0 \<and> y2 - y1 = 1)" "\<not> (x2 - x1 = - 1 \<and> y2 - y1 = 0)"
    unfolding unit_step_def by auto
  then show ?thesis using ab by (auto simp: Let_def)
qed

lemma encode_path_ok:
  "adjacent_path (c # cs) \<Longrightarrow>
   \<exists>ds. encode_pairs (zip (c # cs) cs) out = Inr (out @ ds) \<and> length (concat ds) = length cs \<and>
        replay c (concat ds) = Some (c # cs)"
proof (induction cs arbitrary: c out)
  case Nil
  then show ?case by simp
next
  case (Cons b cs)
  from Cons.prems have ab: "unit_step c b" and rest: "adjacent_path (b # cs)" by simp_all
  from encode_step [OF ab] obtain d where
    d: "encode_pairs ((c, b) # zip (b # cs) cs) out = encode_pairs (zip (b # cs) cs) (out @ [[d]])"
       "move d c = Some b" by blast
  from Cons.IH [OF rest, of "out @ [[d]]"] obtain ds where
    ds: "encode_pairs (zip (b # cs) cs) (out @ [[d]]) = Inr ((out @ [[d]]) @ ds)"
        "length (concat ds) = length cs" "replay b (concat ds) = Some (b # cs)" by blast
  have "encode_pairs (zip (c # b # cs) (b # cs)) out = Inr (out @ ([d] # ds))"
    using d(1) ds(1) by simp
  moreover have "length (concat ([d] # ds)) = length (b # cs)" using ds(2) by simp
  moreover have "replay c (concat ([d] # ds)) = Some (c # b # cs)"
    using d(2) ds(3) by simp
  ultimately show ?case by blast
qed

lemma encode_path_err_mem:
  "\<not> adjacent_path (c # cs) \<Longrightarrow>
   \<exists>a b. encode_pairs (zip (c # cs) cs) out = Inl (ValueError a b) \<and> \<not> unit_step a b \<and>
         (a, b) \<in> set (zip (c # cs) cs)"
proof (induction cs arbitrary: c out)
  case Nil
  then show ?case by simp
next
  case (Cons b cs)
  show ?case
  proof (cases "unit_step c b")
    case True
    with Cons.prems have n: "\<not> adjacent_path (b # cs)" by simp
    from encode_step [OF True] obtain d where
      d: "encode_pairs ((c, b) # zip (b # cs) cs) out = encode_pairs (zip (b # cs) cs) (out @ [[d]])"
      by blast
    from Cons.IH [OF n, of "out @ [[d]]"] obtain a' b' where
      "encode_pairs (zip (b # cs) cs) (out @ [[d]]) = Inl (ValueError a' b')" "\<not> unit_step a' b'"
      "(a', b') \<in> set (zip (b # cs) cs)"
      by blast
    with d have "encode_pairs (zip (c # b # cs) (b # cs)) out = Inl (ValueError a' b') \<and>
                 \<not> unit_step a' b' \<and> (a', b') \<in> set (zip (c # b # cs) (b # cs))" by simp
    then show ?thesis by blast
  next
    case False
    then have "encode_pairs (zip (c # b # cs) (b # cs)) out = Inl (ValueError c b)"
      by (simp add: encode_bad_step)
    with False show ?thesis by simp
  qed
qed

lemma directions_Cons:
  "coords_to_directions self (Some (c # cs)) =
     (case encode_pairs (zip (c # cs) cs) [] of Inl x \<Rightarrow> Inl x | Inr out \<Rightarrow> Inr (concat out))"
  by (cases cs) (simp_all add: coords_to_directions_def)

text \<open>
  Claim C5.  For a non-empty coordinate sequence in which every consecutive pair is a
  unit step, \<open>coords_to_directions\<close> returns a string, and replaying that string letter
  by letter from the first coordinate visits exactly the cells of the sequence, in
  order, and so ends at its last coordinate; the string has one letter per step.
\<close>

theorem directions_round_trip:
  assumes "cs \<noteq> []"
    and "\<forall>i. Suc i < length cs \<longrightarrow> unit_step (cs ! i) (cs ! Suc i)"
  shows "\<exists>s. coords_to_directions self (Some cs) = Inr s \<and>
             replay (hd cs) s = Some cs \<and>
             map_option last (replay (hd cs) s) = Some (last cs) \<and>
             Suc (length s) = length cs"
proof -
  from assms(1) obtain c rest where cs: "cs = c # rest" by (cases cs) auto
  from assms(2) have "adjacent_path (c # rest)" unfolding cs adjacent_path_nth .
  from encode_path_ok [OF this, of "[]"] obtain ds where
    ds: "encode_pairs (zip (c # rest) rest) [] = Inr ds" "length (concat ds) = length rest"
        "replay c (concat ds) = Some (c # rest)" by auto
  have "coords_to_directions self (Some cs) = Inr (concat ds)"
    unfolding cs directions_Cons using ds(1) by simp
  with ds(2,3) show ?thesis unfolding cs by simp
qed

theorem directions_round_trip_witness:
  "coords_to_directions demo_gen (Some [(0, 0), (1, 0), (1, 1), (0, 1), (0, 0)]) = Inr ''ESWN'' \<and>
   replay (0, 0) ''ESWN'' = Some [(0, 0), (1, 0), (1, 1), (0, 1), (0, 0)]"
proof -
  let ?cs = "[(0, 0), (1, 0), (1, 1), (0, 1), (0, 0)] :: coord list"
  have a: "?cs \<noteq> []" by simp
  have "adjacent_path ?cs" by (simp add: unit_step_def)
  then have b: "\<forall>i. Suc i < length ?cs \<longrightarrow> unit_step (?cs ! i) (?cs ! Suc i)"
    unfolding adjacent_path_nth .
  have c: "coords_to_directions demo_gen (Some ?cs) = Inr ''ESWN''"
    by (simp add: coords_to_directions_def)
  from directions_round_trip [OF a b, of demo_gen] c show ?thesis by simp
qed

text \<open>
  Claim C6.  On a supplied sequence \<open>coords_to_directions\<close> raises if and only if some
  consecutive pair is not a unit step; what it raises is then the \<open>ValueError\<close> of such
  a pair of the sequence.  The sequence \<open>[(0,0), (2,0)]\<close> raises it for that pair.
\<close>

theorem directions_error_iff:
  "((\<exists>x. coords_to_directions self (Some cs) = Inl x) =
      (\<exists>i. Suc i < length cs \<and> \<not> unit_step (cs ! i) (cs ! Suc i))) \<and>
   (\<forall>x. coords_to_directions self (Some cs) = Inl x \<longrightarrow>
      (\<exists>a b. x = ValueError a b \<and> \<not> unit_step a b \<and> (a, b) \<in> set (zip cs (drop 1 cs)))) \<and>
   coords_to_directions self (Some [(0, 0), (2, 0)]) = Inl (ValueError (0, 0) (2, 0))"
proof -
  have bad: "(\<exists>i. Suc i < length cs \<and> \<not> unit_step (cs ! i) (cs ! Suc i)) = (\<not> adjacent_path cs)"
    by (simp add: adjacent_path_nth)
  have "((\<exists>x. coords_to_directions self (Some cs) = Inl x) = (\<not> adjacent_path cs)) \<and>
        (\<forall>x. coords_to_directions self (Some cs) = Inl x \<longrightarrow>
          (\<exists>a b. x = ValueError a b \<and> \<not> unit_step a b \<and> (a, b) \<in> set (zip cs (drop 1 cs))))"
  proof (cases cs)
    case Nil
    then show ?thesis by (simp add: coords_to_directions_def)
  next
    case (Cons c rest)
    show ?thesis
    proof (cases "adjacent_path (c # rest)")
      case True
      from encode_path_ok [OF True, of "[]"] obtain ds where
        "encode_pairs (zip (c # rest) rest) [] = Inr ds" by auto
      then have "coords_to_directions self (Some cs) = Inr (concat ds)"
        unfolding Cons directions_Cons by simp
      with True Cons show ?thesis by simp
    next
      case False
      from encode_path_err_mem [OF False, of "[]"] obtain a b where
        "encode_pairs (zip (c # rest) rest) [] = Inl (ValueError a b)" "\<not> unit_step a b"
        "(a, b) \<in> set (zip (c # rest) rest)" by blast
      moreover from this(1) have "coords_to_directions self (Some cs) = Inl (ValueError a b)"
        unfolding Cons directions_Cons by simp
      ultimately have "(\<exists>x. coords_to_directions self (Some cs) = Inl x) \<and>
          (\<forall>x. coords_to_directions self (Some cs) = Inl x \<longrightarrow>
            (\<exists>a b. x = ValueError a b \<and> \<not> unit_step a b \<and> (a, b) \<in> set (zip cs (drop 1 cs))))"
        unfolding Cons by (simp del: split_paired_Ex)
      with False Cons show ?thesis by blast
    qed
  qed
  moreover have "coords_to_directions self (Some [(0, 0), (2, 0)]) = Inl (ValueError (0, 0) (2, 0))"
    by (simp add: coords_to_directions_def)
  ultimately show ?thesis unfolding bad by blast
qed

theorem directions_error_iff_witness:
  "coords_to_directions demo_gen (Some [(0, 0), (1, 0), (2, 1)]) = Inl (ValueError (1, 0) (2, 1)) \<and>
   \<not> unit_step (1, 0) (2, 1) \<and>
   (\<exists>i. Suc i < length ([(0, 0), (1, 0), (2, 1)] :: coord list) \<and>
        \<not> unit_step ([(0, 0), (1, 0), (2, 1)] ! i) ([(0, 0), (1, 0), (2, 1)] ! Suc i))"
proof -
  let ?cs = "[(0, 0), (1, 0), (2, 1)] :: coord list"
  have a: "coords_to_directions demo_gen (Some ?cs) = Inl (ValueError (1, 0) (2, 1))"
    by (simp add: coords_to_directions_def)
  from directions_error_iff [of demo_gen ?cs] a
  have "\<exists>i. Suc i < length ?cs \<and> \<not> unit_step (?cs ! i) (?cs ! Suc i)" by blast
  moreover have "\<not> unit_step (1, 0) (2, 1)" by (simp add: unit_step_def)
  ultimately show ?thesis using a by blast
qed

text \<open>
  Claim C7.  A supplied sequence of fewer than two coordinates, the empty one included,
  gives the empty string and no exception.
\<close>

theorem directions_of_short_sequence:
  "length cs < 2 \<Longrightarrow> coords_to_directions self (Some cs) = Inr ''''"
  by (simp add: coords_to_directions_def)

theorem directions_of_short_sequence_witness:
  "length ([] :: coord list) < 2 \<and> coords_to_directions demo_gen (Some []) = Inr '''' \<and>
   length [(3, 4) :: coord] < 2 \<and> coords_to_directions demo_gen (Some [(3, 4)]) = Inr ''''"
  using directions_of_short_sequence [of "[]" demo_gen]
    directions_of_short_sequence [of "[(3, 4)]" demo_gen]
  by simp

subsection \<open>The sample build, evaluated\<close>

lemma demo_gen_eq:
  "demo_gen = \<lparr>cfg = demo_cfg, priv_maze = None, priv_path = None, priv_forbidden = 0\<rparr>"
  by (simp add: demo_gen_def init_def new_set_def empty_heap_def)

lemma demo_heap_eq: "demo_heap = \<lparr>objs = [0 \<mapsto> {}], next_ref = 1\<rparr>"
  by (simp add: demo_heap_def init_def new_set_def empty_heap_def)

lemma demo_generate_eq:
  "generate demo_env demo_gen demo_heap =
     (Inr [[13, 7]],
      \<lparr>cfg = demo_cfg, priv_maze = Some [[13, 7]], priv_path = None, priv_forbidden = 1\<rparr>,
      \<lparr>objs = [0 \<mapsto> {}, 1 \<mapsto> {}], next_ref = 2\<rparr>)"
  by (simp add: generate_def demo_gen_eq demo_heap_eq demo_env_def demo_cfg_def run_marking_def
      new_set_def lookup_def)

lemma demo_generated_eq:
  "demo_generated =
     \<lparr>cfg = demo_cfg, priv_maze = Some [[13, 7]], priv_path = None, priv_forbidden = 1\<rparr>"
  by (simp add: demo_generated_def demo_generate_eq)

lemma demo_solve_eq:
  "solve_maze_path demo_env demo_generated =
     (Inr [(0, 0), (1, 0)],
      \<lparr>cfg = demo_cfg, priv_maze = Some [[13, 7]], priv_path = Some [(0, 0), (1, 0)],
       priv_forbidden = 1\<rparr>)"
  by (simp add: solve_maze_path_def demo_generated_eq maze_def demo_env_def)

lemma demo_solved_eq:
  "demo_solved =
     \<lparr>cfg = demo_cfg, priv_maze = Some [[13, 7]], priv_path = Some [(0, 0), (1, 0)],
       priv_forbidden = 1\<rparr>"
  by (simp add: demo_solved_def demo_solve_eq)

subsection \<open>The accessors and the pipeline\<close>

text \<open>
  After a successful \<open>solve_maze_path\<close> the path is stored, and the property \<open>path\<close>
  still returns \<open>None\<close>: its body has the guard and no \<open>return\<close>.  The call of
  \<open>coords_to_directions\<close> without an argument then takes \<open>len(None)\<close>.
\<close>

lemma path_after_solve:
  "solve_maze_path e self = (Inr p, self') \<Longrightarrow> priv_path self' = Some p \<and> path self' = Inr None"
  by (auto simp: solve_maze_path_def path_def split: sum.splits)

lemma directions_after_solve:
  "solve_maze_path e self = (Inr p, self') \<Longrightarrow> coords_to_directions self' None = Inl TypeError"
  by (auto simp: solve_maze_path_def path_def coords_to_directions_def split: sum.splits)

text \<open>
  Claim C1.  The claim is that reading \<open>path\<close> after a successful \<open>solve_maze_path\<close>
  returns the solved path.  In the sample build the solver returns and stores
  \<open>[(0,0), (1,0)]\<close>, and the property \<open>path\<close> then returns \<open>None\<close>.
\<close>

theorem path_after_solve_returns_None:
  "fst (solve_maze_path demo_env demo_generated) = Inr [(0, 0), (1, 0)] \<and>
   priv_path demo_solved = Some [(0, 0), (1, 0)] \<and>
   path demo_solved = Inr None"
  by (simp add: demo_solve_eq demo_solved_eq path_def)

text \<open>
  Claim C2.  The claim is that \<open>coords_to_directions\<close> without an argument returns the
  direction string of the solved path.  In the sample build, after generating and
  solving, that call raises \<open>TypeError\<close>, while the same call given the solved path
  explicitly returns \<open>E\<close>.
\<close>

theorem directions_of_solved_path_raise:
  "fst (solve_maze_path demo_env demo_generated) = Inr [(0, 0), (1, 0)] \<and>
   coords_to_directions demo_solved None = Inl TypeError \<and>
   coords_to_directions demo_solved (Some [(0, 0), (1, 0)]) = Inr ''E''"
  by (simp add: demo_solve_eq demo_solved_eq path_def coords_to_directions_def)

text \<open>
  Claim C3, as stated, fails for the forbidden-cell accessor: on a generator that was
  never generated it raises nothing and returns a new, empty set.
\<close>

theorem forbidden_cells_before_generate:
  "priv_maze demo_gen = None \<and>
   fst (forbidden_cells demo_gen demo_heap) = Inr 1 \<and>
   lookup (snd (forbidden_cells demo_gen demo_heap)) 1 = {}"
  by (simp add: demo_gen_eq demo_heap_eq forbidden_cells_def new_set_def lookup_def)

lemma not_generated_new: "not_generated (new_session c h)"
  by (simp add: not_generated_def new_session_def init_def new_set_def lookup_def)

lemma not_generated_perform:
  assumes "c \<noteq> Generate" and "not_generated s"
  shows "not_generated (perform e c s)"
proof -
  obtain g h rs where s: "s = (g, h, rs)" by (cases s) auto
  from assms(2) have inv: "priv_maze g = None" "priv_path g = None"
    "lookup h (priv_forbidden g) = {}" "priv_forbidden g \<notin> set rs" "priv_forbidden g < next_ref h"
    unfolding s not_generated_def by simp_all
  show ?thesis
  proof (cases c)
    case Generate
    with assms(1) show ?thesis by simp
  next
    case Solve_maze_path
    then show ?thesis using inv unfolding s
      by (simp add: not_generated_def solve_maze_path_def maze_def)
  next
    case Read_forbidden_cells
    then show ?thesis using inv unfolding s
      by (auto simp: not_generated_def forbidden_cells_def new_set_def lookup_def)
  next
    case (Update_returned k f)
    show ?thesis
    proof (cases "k < length rs")
      case True
      with inv(4) have "rs ! k \<noteq> priv_forbidden g" by (metis nth_mem)
      with True inv show ?thesis unfolding s Update_returned
        by (auto simp: not_generated_def mutate_set_def lookup_def split: option.splits)
    next
      case False
      with assms(2) show ?thesis unfolding s Update_returned by simp
    qed
  qed (use assms(2) in simp_all)
qed

lemma not_generated_run:
  "Generate \<notin> set cs \<Longrightarrow> not_generated s \<Longrightarrow> not_generated (run e cs s)"
proof (induction cs arbitrary: s)
  case Nil
  then show ?case by simp
next
  case (Cons c cs)
  from Cons.prems have "c \<noteq> Generate" "Generate \<notin> set cs" by auto
  with Cons.IH [of "perform e c s"] not_generated_perform [of c s e] Cons.prems(2)
  show ?case by simp
qed

lemma no_path_perform:
  assumes "c \<noteq> Solve_maze_path" and "no_path s"
  shows "no_path (perform e c s)"
proof -
  obtain g h rs where s: "s = (g, h, rs)" by (cases s) auto
  show ?thesis
  proof (cases c)
    case Generate
    obtain res g' h' where gen: "generate e g h = (res, g', h')" by (cases "generate e g h") auto
    from assms(2) have "priv_path g = None" unfolding s no_path_def by simp
    with gen have "priv_path g' = None"
      by (auto simp: generate_def Let_def split: sum.splits option.splits prod.splits if_splits)
    with gen show ?thesis unfolding s Generate no_path_def by simp
  next
    case Solve_maze_path
    with assms(1) show ?thesis by simp
  next
    case Read_forbidden_cells
    with assms(2) show ?thesis unfolding s no_path_def
      by (simp add: forbidden_cells_def new_set_def)
  next
    case (Update_returned k f)
    with assms(2) show ?thesis unfolding s no_path_def by simp
  qed (use assms(2) in simp_all)
qed

lemma no_path_run:
  "Solve_maze_path \<notin> set cs \<Longrightarrow> no_path s \<Longrightarrow> no_path (run e cs s)"
proof (induction cs arbitrary: s)
  case Nil
  then show ?case by simp
next
  case (Cons c cs)
  from Cons.prems have "c \<noteq> Solve_maze_path" "Solve_maze_path \<notin> set cs" by auto
  with Cons.IH [of "perform e c s"] no_path_perform [of c s e] Cons.prems(2)
  show ?case by simp
qed

text \<open>
  Claim C3, amended.  On a generator on which \<open>generate\<close> has not been called, whatever
  else was called on it, the accessors \<open>maze\<close> and \<open>path\<close> raise and \<open>forbidden_cells\<close>
  returns a new, empty set; the accessor \<open>path\<close> raises on every generator on which
  \<open>solve_maze_path\<close> has not been called; and \<open>forbidden_cells\<close> never raises: it
  returns a copy of the stored set.
\<close>

theorem accessors_before_stage:
  "(Generate \<notin> set cs \<longrightarrow>
      (\<forall>g h rs. run (e :: 'm env) cs (new_session c h0) = (g, h, rs) \<longrightarrow>
         maze g = Inl MazeNotGenerated \<and> path g = Inl PathNotSolved \<and>
         (\<exists>r h'. forbidden_cells g h = (Inr r, h') \<and> lookup h' r = {}))) \<and>
   (Solve_maze_path \<notin> set cs \<longrightarrow>
      (\<forall>g h rs. run e cs (new_session c h0) = (g, h, rs) \<longrightarrow> path g = Inl PathNotSolved)) \<and>
   (\<forall>g h. \<exists>r h'. forbidden_cells (g :: 'm MazeGenerator) h = (Inr r, h') \<and>
                  lookup h' r = lookup h (priv_forbidden g))"
proof (intro conjI impI allI)
  fix g :: "'m MazeGenerator" and h rs
  assume "Generate \<notin> set cs" and r: "run e cs (new_session c h0) = (g, h, rs)"
  from not_generated_run [OF this(1) not_generated_new, of e c h0] r
  have inv: "priv_maze g = None" "priv_path g = None" "lookup h (priv_forbidden g) = {}"
    by (simp_all add: not_generated_def)
  from inv(1) show "maze g = Inl MazeNotGenerated" by (simp add: maze_def)
  from inv(2) show "path g = Inl PathNotSolved" by (simp add: path_def)
  from inv(3) show "\<exists>r h'. forbidden_cells g h = (Inr r, h') \<and> lookup h' r = {}"
    by (simp add: forbidden_cells_def new_set_def lookup_def)
next
  fix g :: "'m MazeGenerator" and h rs
  assume "Solve_maze_path \<notin> set cs" and r: "run e cs (new_session c h0) = (g, h, rs)"
  have "no_path (new_session c h0 :: 'm session)"
    by (simp add: no_path_def new_session_def init_def new_set_def)
  from no_path_run [OF \<open>Solve_maze_path \<notin> set cs\<close> this, of e] r
  show "path g = Inl PathNotSolved" by (simp add: no_path_def path_def)
next
  fix g :: "'m MazeGenerator" and h
  show "\<exists>r h'. forbidden_cells g h = (Inr r, h') \<and> lookup h' r = lookup h (priv_forbidden g)"
    by (simp add: forbidden_cells_def new_set_def lookup_def)
qed

theorem accessors_before_stage_witness:
  "Generate \<notin> set [Read_forbidden_cells, Update_returned 0 (insert (5, 5)), Solve_maze_path] \<and>
   Solve_maze_path \<notin> set [Generate, Read_forbidden_cells] \<and>
   maze (fst (run demo_env [Read_forbidden_cells, Update_returned 0 (insert (5, 5)), Solve_maze_path]
                (new_session demo_cfg empty_heap))) = Inl MazeNotGenerated \<and>
   path (fst (run demo_env [Generate, Read_forbidden_cells] (new_session demo_cfg empty_heap)))
     = Inl PathNotSolved \<and>
   priv_maze (fst (run demo_env [Generate, Read_forbidden_cells] (new_session demo_cfg empty_heap)))
     = Some [[13, 7]]"
proof -
  let ?cs1 = "[Read_forbidden_cells, Update_returned 0 (insert (5, 5)), Solve_maze_path]"
  let ?cs2 = "[Generate, Read_forbidden_cells]"
  let ?s0 = "new_session demo_cfg empty_heap :: grid session"
  have a: "Generate \<notin> set ?cs1" by simp
  have b: "Solve_maze_path \<notin> set ?cs2" by simp
  have r1: "run demo_env ?cs1 ?s0 =
      (fst (run demo_env ?cs1 ?s0), fst (snd (run demo_env ?cs1 ?s0)), snd (snd (run demo_env ?cs1 ?s0)))"
    by simp
  have r2: "run demo_env ?cs2 ?s0 =
      (fst (run demo_env ?cs2 ?s0), fst (snd (run demo_env ?cs2 ?s0)), snd (snd (run demo_env ?cs2 ?s0)))"
    by simp
  from accessors_before_stage [of ?cs1 demo_env demo_cfg empty_heap] a r1
  have m: "maze (fst (run demo_env ?cs1 ?s0)) = Inl MazeNotGenerated" by blast
  from accessors_before_stage [of ?cs2 demo_env demo_cfg empty_heap] b r2
  have p: "path (fst (run demo_env ?cs2 ?s0)) = Inl PathNotSolved" by blast
  have g: "priv_maze (fst (run demo_env ?cs2 ?s0)) = Some [[13, 7]]"
    by (simp add: new_session_def init_def new_set_def empty_heap_def generate_def
        run_marking_def demo_env_def demo_cfg_def lookup_def forbidden_cells_def)
  from a b m p g show ?thesis by blast
qed

text \<open>
  The statement is about generators on which \<open>generate\<close> was not called.  \<open>generate\<close>
  stores the new maze before the later steps run, so after a call that raised in one of
  them the accessor \<open>maze\<close> returns the stored maze: here the carved maze, after the
  missing-feature error.
\<close>

lemma maze_after_failed_generate:
  "fst (generate demo_env (fst (init (demo_cfg\<lparr>perfect := False\<rparr>) empty_heap)) 
          (snd (init (demo_cfg\<lparr>perfect := False\<rparr>) empty_heap :: grid MazeGenerator \<times> heap)))
     = Inl MissingFeature \<and>
   maze (fst (snd (generate demo_env (fst (init (demo_cfg\<lparr>perfect := False\<rparr>) empty_heap)) 
          (snd (init (demo_cfg\<lparr>perfect := False\<rparr>) empty_heap :: grid MazeGenerator \<times> heap)))))
     = Inr [[13, 7]]"
  by (simp add: init_def new_set_def empty_heap_def generate_def
        run_marking_def demo_env_def demo_cfg_def lookup_def maze_def)

text \<open>
  Claim C4.  When the configuration asks for an imperfect maze and the braiding routine
  is absent, \<open>generate\<close> never returns a maze: it raises.  What it raises is the
  missing-feature \<open>RuntimeError\<close> whenever the steps before the braiding step (building
  the maze, marking, carving) raised nothing themselves.
\<close>

theorem generate_without_braider:
  assumes "\<not> perfect (cfg self)" and "multiple_path_maze e = None"
  shows "(\<exists>x. fst (generate e self h) = Inl x) \<and>
         (\<forall>m marked.
            Maze e (height (cfg self)) (width (cfg self)) (entry (cfg self)) (exit (cfg self)) = Inr m
            \<longrightarrow> run_marking e (cfg self) m = Inr marked
            \<longrightarrow> fst (dfs_maze_generator e m (case marked of None \<Rightarrow> {} | Some cells \<Rightarrow> set cells)
                       (seed (cfg self))) = None
            \<longrightarrow> fst (generate e self h) = Inl MissingFeature)"
  using assms
  by (auto simp: generate_def Let_def new_set_def lookup_def
      split: sum.splits option.splits prod.splits)

theorem generate_without_braider_witness:
  "\<not> perfect (cfg (demo_gen\<lparr>cfg := demo_cfg\<lparr>perfect := False\<rparr>\<rparr>)) \<and>
   multiple_path_maze demo_env = None \<and>
   fst (generate demo_env (demo_gen\<lparr>cfg := demo_cfg\<lparr>perfect := False\<rparr>\<rparr>) demo_heap)
     = Inl MissingFeature"
proof -
  let ?g = "demo_gen\<lparr>cfg := demo_cfg\<lparr>perfect := False\<rparr>\<rparr>"
  have a: "\<not> perfect (cfg ?g)" by (simp add: demo_gen_eq)
  have b: "multiple_path_maze demo_env = None" by (simp add: demo_env_def)
  have c: "Maze demo_env (height (cfg ?g)) (width (cfg ?g)) (entry (cfg ?g)) (exit (cfg ?g))
             = Inr [[15, 15]]"
    by (simp add: demo_env_def demo_cfg_def demo_gen_eq numeral_2_eq_2)
  have d: "run_marking demo_env (cfg ?g) [[15, 15]] = Inr None"
    by (simp add: run_marking_def demo_env_def)
  have e: "fst (dfs_maze_generator demo_env [[15, 15]] (case None of None \<Rightarrow> {} | Some cells \<Rightarrow> set cells)
                  (seed (cfg ?g))) = None"
    by (simp add: demo_env_def)
  from generate_without_braider [OF a b, of demo_heap] c d e
  have "fst (generate demo_env ?g demo_heap) = Inl MissingFeature" by blast
  with a b show ?thesis by blast
qed

text \<open>
  Claim C8.  When \<open>generate\<close> completes, no path is stored, whatever was stored before:
  reading \<open>path\<close> and calling \<open>coords_to_directions\<close> without an argument both raise
  the not-solved \<open>RuntimeError\<close>, and a path is stored again only by a new successful
  \<open>solve_maze_path\<close>.
\<close>

theorem generate_resets_path:
  assumes "generate e self h = (Inr m, self', h')"
  shows "priv_path self' = None \<and> path self' = Inl PathNotSolved \<and>
         coords_to_directions self' None = Inl PathNotSolved \<and>
         (\<forall>p self''. solve_maze_path e self' = (Inr p, self'') \<longrightarrow> priv_path self'' = Some p)"
proof -
  from assms have "priv_path self' = None"
    by (auto simp: generate_def Let_def split: sum.splits option.splits prod.splits if_splits)
  moreover have "\<forall>p self''. solve_maze_path e self' = (Inr p, self'') \<longrightarrow> priv_path self'' = Some p"
    by (auto simp: solve_maze_path_def split: sum.splits)
  ultimately show ?thesis
    by (simp add: path_def coords_to_directions_def)
qed

theorem generate_resets_path_witness:
  "priv_path demo_solved = Some [(0, 0), (1, 0)] \<and>
   fst (generate demo_env demo_solved demo_heap) = Inr [[13, 7]] \<and>
   path (fst (snd (generate demo_env demo_solved demo_heap))) = Inl PathNotSolved \<and>
   coords_to_directions (fst (snd (generate demo_env demo_solved demo_heap))) None = Inl PathNotSolved"
proof -
  have a: "fst (generate demo_env demo_solved demo_heap) = Inr [[13, 7]]"
    by (simp add: generate_def demo_solved_eq demo_heap_eq demo_env_def demo_cfg_def
        run_marking_def new_set_def lookup_def)
  then have "generate demo_env demo_solved demo_heap =
      (Inr [[13, 7]], fst (snd (generate demo_env demo_solved demo_heap)),
       snd (snd (generate demo_env demo_solved demo_heap)))"
    by (metis prod.collapse)
  from generate_resets_path [OF this] a show ?thesis
    by (simp add: demo_solved_eq)
qed

text \<open>
  Claim C9.  When the configuration asks for the marking and the marking routine is
  absent, \<open>generate\<close> raises nothing on that account: once the maze is built the
  forbidden set of the generator is empty, the carver is run on the empty set, and
  \<open>generate\<close> returns the maze whenever the carver (and the braiding routine, for an
  imperfect maze) raises nothing.
\<close>

theorem generate_without_marking:
  assumes "marking_42 (cfg self)" and "forty_two_marking e = None"
    and "Maze e (height (cfg self)) (width (cfg self)) (entry (cfg self)) (exit (cfg self)) = Inr m"
  shows "lookup (snd (snd (generate e self h))) (priv_forbidden (fst (snd (generate e self h)))) = {} \<and>
         (\<forall>m1. dfs_maze_generator e m {} (seed (cfg self)) = (None, m1) \<longrightarrow>
            (perfect (cfg self) \<longrightarrow> fst (generate e self h) = Inr m1) \<and>
            (\<forall>braid m2. \<not> perfect (cfg self) \<and> multiple_path_maze e = Some braid \<and>
                 braid m1 = (None, m2) \<longrightarrow> fst (generate e self h) = Inr m2))"
  using assms
  by (auto simp: generate_def run_marking_def Let_def new_set_def lookup_def
      split: sum.splits option.splits prod.splits)

theorem generate_without_marking_witness:
  "marking_42 (cfg demo_gen) \<and> forty_two_marking demo_env = None \<and>
   fst (generate demo_env demo_gen demo_heap) = Inr [[13, 7]] \<and>
   lookup (snd (snd (generate demo_env demo_gen demo_heap)))
     (priv_forbidden (fst (snd (generate demo_env demo_gen demo_heap)))) = {}"
proof -
  have a: "marking_42 (cfg demo_gen)" by (simp add: demo_gen_eq demo_cfg_def)
  have b: "forty_two_marking demo_env = None" by (simp add: demo_env_def)
  have c: "Maze demo_env (height (cfg demo_gen)) (width (cfg demo_gen)) (entry (cfg demo_gen))
             (exit (cfg demo_gen)) = Inr [[15, 15]]"
    by (simp add: demo_env_def demo_cfg_def demo_gen_eq numeral_2_eq_2)
  have d: "dfs_maze_generator demo_env [[15, 15]] {} (seed (cfg demo_gen)) = (None, [[13, 7]])"
    by (simp add: demo_env_def)
  have e: "perfect (cfg demo_gen)" by (simp add: demo_gen_eq demo_cfg_def)
  from generate_without_marking [OF a b c, of demo_heap] d e a b show ?thesis by blast
qed

subsection \<open>The forbidden set is handed out as a copy\<close>

text \<open>
  The stored forbidden set is always an allocated object: the constructor allocates
  it, and \<open>generate\<close> replaces it by a newly allocated one.
\<close>

lemma init_allocated: "init c h = (g, h1) \<Longrightarrow> priv_forbidden g < next_ref h1"
  by (auto simp: init_def new_set_def)

lemma generate_allocated:
  "priv_forbidden self < next_ref h \<Longrightarrow> generate e self h = (res, self', h') \<Longrightarrow>
   priv_forbidden self' < next_ref h'"
  by (auto simp: generate_def Let_def new_set_def
      split: sum.splits option.splits prod.splits if_splits)

lemma mutate_set_next_ref: "next_ref (mutate_set r f h) = next_ref h"
  by (simp add: mutate_set_def split: option.splits)

text \<open>
  Claim C10.  \<open>forbidden_cells\<close> returns a new object with the contents of the stored
  forbidden set: reading changes no object that existed before, an in-place update of
  the returned set changes that set only, and a later read of \<open>forbidden_cells\<close> still
  gives the contents of the stored set.
\<close>

theorem forbidden_cells_fresh_copy:
  assumes "priv_forbidden self < next_ref h"
  shows "\<exists>r h1. forbidden_cells self h = (Inr r, h1) \<and>
           r \<noteq> priv_forbidden self \<and> \<not> r < next_ref h \<and>
           lookup h1 r = lookup h (priv_forbidden self) \<and>
           (\<forall>a. a < next_ref h \<longrightarrow> objs h1 a = objs h a) \<and>
           (\<forall>f. lookup (mutate_set r f h1) r = f (lookup h (priv_forbidden self)) \<and>
                lookup (mutate_set r f h1) (priv_forbidden self) = lookup h (priv_forbidden self) \<and>
                (\<exists>r2 h2. forbidden_cells self (mutate_set r f h1) = (Inr r2, h2) \<and>
                         lookup h2 r2 = lookup h (priv_forbidden self)))"
  using assms
  by (auto simp: forbidden_cells_def new_set_def lookup_def mutate_set_def)

theorem forbidden_cells_fresh_copy_witness:
  "priv_forbidden demo_generated < next_ref (snd (snd (generate demo_env demo_gen demo_heap))) \<and>
   fst (forbidden_cells demo_generated (snd (snd (generate demo_env demo_gen demo_heap)))) = Inr 2 \<and>
   lookup (mutate_set 2 (insert (5, 5))
             (snd (forbidden_cells demo_generated (snd (snd (generate demo_env demo_gen demo_heap))))))
      (priv_forbidden demo_generated) = {}"
proof -
  let ?h = "snd (snd (generate demo_env demo_gen demo_heap))"
  have a: "priv_forbidden demo_generated < next_ref ?h"
    by (simp add: demo_generated_eq demo_generate_eq)
  have b: "forbidden_cells demo_generated ?h =
            (Inr 2, \<lparr>objs = [0 \<mapsto> {}, 1 \<mapsto> {}, 2 \<mapsto> {}], next_ref = 3\<rparr>)"
    by (simp add: demo_generated_eq demo_generate_eq forbidden_cells_def new_set_def lookup_def)
  have c: "lookup ?h (priv_forbidden demo_generated) = {}"
    by (simp add: demo_generated_eq demo_generate_eq lookup_def)
  from forbidden_cells_fresh_copy [OF a] b c a show ?thesis by auto
qed

end
